theory Spec2Isabelle
  imports Complex_Main
begin

section \<open>ADF z-statistic simulation: the numeric layer\<close>

text \<open>
  The source is \<^verbatim>\<open>adf_z_critical_values_simulation_joblib.py\<close>. Its arrays are numpy
  arrays of doubles. The embedding idealises a double as a real number (no rounding, no
  overflow) and adds the IEEE special values only where the source can produce them: the
  elementwise division \<^verbatim>\<open>xpy / xpx\<close>, which numpy evaluates to NaN or to an infinity
  (with a warning, not an exception) when the divisor is zero.

  A two-dimensional array is the list of its rows; the number of columns is passed to
  the operations that need it, so that an array with no rows still has a width.
\<close>

datatype error = ValueError | ZeroDivisionError

datatype npfloat = Fin real | PInf | NInf | NaN

type_synonym vec = "real list"
type_synonym mat = "real list list"

text \<open>
  A \<^verbatim>\<open>RandomState\<close> is represented by the stream of standard-normal variates it
  will hand out: entry \<open>i\<close> is the \<open>i\<close>-th variate still to come.
\<close>

type_synonym rng = "nat \<Rightarrow> real"

definition np_div :: "real \<Rightarrow> real \<Rightarrow> npfloat" where
  "np_div x y =
     (if y \<noteq> 0 then Fin (x / y)
      else if x = 0 then NaN
      else if 0 < x then PInf else NInf)"

fun np_sub :: "npfloat \<Rightarrow> real \<Rightarrow> npfloat" where
  "np_sub (Fin x) c = Fin (x - c)"
| "np_sub PInf c = PInf"
| "np_sub NInf c = NInf"
| "np_sub NaN c = NaN"

fun np_scale :: "nat \<Rightarrow> npfloat \<Rightarrow> npfloat" where
  "np_scale k (Fin x) = Fin (real k * x)"
| "np_scale k PInf = (if k = 0 then NaN else PInf)"
| "np_scale k NInf = (if k = 0 then NaN else NInf)"
| "np_scale k NaN = NaN"

definition col :: "nat \<Rightarrow> mat \<Rightarrow> vec" where
  "col j m = map (\<lambda>row. row ! j) m"

definition inner :: "vec \<Rightarrow> vec \<Rightarrow> real" where
  "inner xs ys = sum_list (map2 (*) xs ys)"

text \<open>\<^verbatim>\<open>dot(a, b)\<close> for two-dimensional \<open>a\<close> and \<open>b\<close>, where \<open>b\<close> has \<open>w\<close> columns.\<close>

definition dot :: "nat \<Rightarrow> mat \<Rightarrow> mat \<Rightarrow> mat" where
  "dot w a b = map (\<lambda>row. map (\<lambda>j. inner row (col j b)) [0..<w]) a"

definition vadd :: "vec \<Rightarrow> vec \<Rightarrow> vec" where
  "vadd xs ys = map2 (+) xs ys"

definition msub :: "mat \<Rightarrow> mat \<Rightarrow> mat" where
  "msub a b = map2 (map2 (-)) a b"

definition mmul :: "mat \<Rightarrow> mat \<Rightarrow> mat" where
  "mmul a b = map2 (map2 (*)) a b"

definition msquare :: "mat \<Rightarrow> mat" where
  "msquare a = map (map (\<lambda>x. x ^ 2)) a"

text \<open>\<^verbatim>\<open>sum(a, 0)\<close>: the rows are added up, starting from a zero row of width \<open>w\<close>.\<close>

definition sum_axis0 :: "nat \<Rightarrow> mat \<Rightarrow> vec" where
  "sum_axis0 w a = foldl vadd (replicate w 0) a"

text \<open>\<^verbatim>\<open>cumsum(a, axis=0)\<close>: every row is replaced by the sum of the rows up to it.\<close>

fun cumsum_from :: "vec \<Rightarrow> mat \<Rightarrow> mat" where
  "cumsum_from acc [] = []"
| "cumsum_from acc (row # rows) = vadd acc row # cumsum_from (vadd acc row) rows"

definition cumsum_axis0 :: "nat \<Rightarrow> mat \<Rightarrow> mat" where
  "cumsum_axis0 w a = cumsum_from (replicate w 0) a"

text \<open>
  \<^verbatim>\<open>rng.standard_normal((rows, cols))\<close> fills the array in row-major order from the
  stream and leaves the generator advanced by \<open>rows * cols\<close> variates.
\<close>

definition standard_normal :: "nat \<Rightarrow> nat \<Rightarrow> rng \<Rightarrow> mat \<times> rng" where
  "standard_normal rows cols g =
     (map (\<lambda>r. map (\<lambda>c. g (r * cols + c)) [0..<cols]) [0..<rows],
      \<lambda>i. g (rows * cols + i))"

section \<open>The statistic generator \<^verbatim>\<open>adf_simulation\<close>\<close>

text \<open>
  Lines 65 to 73: the regressor matrix \<open>z\<close> for \<open>nobs = n - 1\<close> observations, or
  \<open>None\<close> for every tag that is none of \<^verbatim>\<open>'c'\<close>, \<^verbatim>\<open>'ct'\<close>, \<^verbatim>\<open>'ctt'\<close>. For \<open>n = 0\<close>
  the source asks numpy for an array with \<open>-1\<close> rows, which raises.
\<close>

definition trend_regressors :: "nat \<Rightarrow> string \<Rightarrow> error + mat option" where
  "trend_regressors n trend =
     (let nobs = n - 1 in
      if trend = ''c'' then
        (if n = 0 then Inl ValueError else Inr (Some (replicate nobs [1])))
      else if trend = ''ct'' then
        (if n = 0 then Inl ValueError
         else Inr (Some (map (\<lambda>t. [1, real t]) [1..<nobs + 1])))
      else if trend = ''ctt'' then
        (if n = 0 then Inl ValueError
         else Inr (Some (map (\<lambda>t. [1, real t, real t ^ 2]) [1..<nobs + 1])))
      else Inr None)"

text \<open>
  Lines 82 and 83 (and again 84 and 85): the residual of \<open>series\<close> after its projection
  on the columns of \<open>z\<close>, through the pseudo-inverse \<open>z_inv\<close>.
\<close>

definition project :: "nat \<Rightarrow> mat \<Rightarrow> mat \<Rightarrow> mat \<Rightarrow> mat" where
  "project w z z_inv series =
     (let beta = dot w z_inv series in msub series (dot w z beta))"

text \<open>
  \<^verbatim>\<open>dot\<close> raises when the inner dimensions of its arguments differ. With \<open>z\<close> of shape
  \<open>(nobs, k)\<close> and the series of shape \<open>(nobs, b)\<close> the two products are aligned exactly
  when \<open>z_inv\<close> has shape \<open>(k, nobs)\<close>.
\<close>

definition aligned :: "mat \<Rightarrow> mat \<Rightarrow> bool" where
  "aligned z z_inv \<longleftrightarrow>
     list_all (\<lambda>row. length row = length z_inv) z \<and>
     list_all (\<lambda>row. length row = length z) z_inv"

text \<open>
  Lines 80 to 85. \<^verbatim>\<open>numpy.linalg.pinv\<close> is a library routine outside the repository:
  it is the parameter \<open>pinv\<close>.
\<close>

definition detrend ::
  "(mat \<Rightarrow> mat) \<Rightarrow> nat \<Rightarrow> mat option \<Rightarrow> mat \<Rightarrow> mat \<Rightarrow> error + mat \<times> mat" where
  "detrend pinv w zopt lhs rhs =
     (case zopt of
        None \<Rightarrow> Inr (lhs, rhs)
      | Some z \<Rightarrow>
          (let z_inv = pinv z in
           if \<not> aligned z z_inv then Inl ValueError
           else Inr (project w z z_inv lhs, project w z z_inv rhs)))"

text \<open>Lines 87 to 92: the AR(1) coefficient of every column and the statistic.\<close>

definition ar1_statistic :: "nat \<Rightarrow> mat \<Rightarrow> mat \<Rightarrow> npfloat list" where
  "ar1_statistic w lhs rhs =
     (let xpy = sum_axis0 w (mmul rhs lhs);
          xpx = sum_axis0 w (msquare rhs);
          gamma = map2 np_div xpy xpx;
          nobs = length lhs
      in map (\<lambda>g. np_scale nobs (np_sub g 1)) gamma)"

text \<open>
  Lines 75 to 79: the random walks after the burn-in, split into \<open>lhs\<close> and \<open>rhs\<close>.
  The generator is an argument: lines 61 and 62 only supply \<^verbatim>\<open>RandomState(0)\<close> to a
  caller that passes none, and \<^verbatim>\<open>wrapper\<close>, the only caller, always passes its own.
\<close>

definition random_walks :: "nat \<Rightarrow> nat \<Rightarrow> rng \<Rightarrow> (mat \<times> mat) \<times> rng" where
  "random_walks n b g =
     (let (y, g') = standard_normal (n + 50) b g;
          y = cumsum_axis0 b y;
          y = drop 50 y;
          lhs = drop 1 y;
          rhs = butlast y
      in ((lhs, rhs), g'))"

definition adf_simulation ::
  "(mat \<Rightarrow> mat) \<Rightarrow> nat \<Rightarrow> string \<Rightarrow> nat \<Rightarrow> rng \<Rightarrow> error + npfloat list \<times> rng" where
  "adf_simulation pinv n trend b g =
     (case trend_regressors n trend of
        Inl e \<Rightarrow> Inl e
      | Inr z \<Rightarrow>
          (let ((lhs, rhs), g') = random_walks n b g in
           case detrend pinv b z lhs rhs of
             Inl e \<Rightarrow> Inl e
           | Inr (lhs, rhs) \<Rightarrow> Inr (ar1_statistic b lhs rhs, g')))"

section \<open>The memory-bounded batch runner \<^verbatim>\<open>wrapper\<close>\<close>

text \<open>
  Line 42: \<^verbatim>\<open>int(2 ** 20.0 * MAX_MEMORY_SIZE / (8.0 * n))\<close>. \<^verbatim>\<open>int\<close> truncates towards
  zero. The products are exact in double precision and the rounded quotient of two
  integers below \<open>2^53\<close> has the integer part of the exact quotient, so the value is the
  truncated integer quotient. The memory budget \<^verbatim>\<open>MAX_MEMORY_SIZE\<close> is the parameter
  \<open>mem\<close>, in MiB.
\<close>

definition int_trunc_quot :: "int \<Rightarrow> int \<Rightarrow> int" where
  "int_trunc_quot a b = sgn a * sgn b * (\<bar>a\<bar> div \<bar>b\<bar>)"

definition block_size :: "int \<Rightarrow> nat \<Rightarrow> int" where
  "block_size mem n = int_trunc_quot (2 ^ 20 * mem) (8 * int n)"

text \<open>\<^verbatim>\<open>range(0, b, step)\<close> for a non-zero step; a negative step gives the empty range.\<close>

definition py_range :: "nat \<Rightarrow> int \<Rightarrow> nat list" where
  "py_range b step =
     (if 0 < step then map (\<lambda>k. k * nat step) [0..<(b + nat step - 1) div nat step]
      else [])"

text \<open>\<^verbatim>\<open>res[st:en] = vals\<close>\<close>

definition assign_slice :: "'a list \<Rightarrow> nat \<Rightarrow> nat \<Rightarrow> 'a list \<Rightarrow> 'a list" where
  "assign_slice res st en vals = take st res @ vals @ drop en res"

text \<open>
  Lines 43 to 52: the loop, with the state \<open>(rng, res, finished, remaining)\<close>. An exception
  of \<^verbatim>\<open>adf_simulation\<close> leaves the loop.
\<close>

fun block_loop ::
  "(mat \<Rightarrow> mat) \<Rightarrow> nat \<Rightarrow> string \<Rightarrow> int \<Rightarrow> nat list \<Rightarrow>
   rng \<times> npfloat list \<times> nat \<times> nat \<Rightarrow> error + rng \<times> npfloat list \<times> nat \<times> nat" where
  "block_loop pinv n trend bs [] st = Inr st"
| "block_loop pinv n trend bs (j # js) (g, res, finished, remaining) =
     (let count = (if bs < int remaining then nat bs else remaining);
          st = finished;
          en = finished + count
      in case adf_simulation pinv n trend count g of
           Inl e \<Rightarrow> Inl e
         | Inr (stat, g') \<Rightarrow>
             block_loop pinv n trend bs js
               (g', assign_slice res st en stat, finished + count, remaining - count))"

text \<open>
  Lines 37 to 54. \<^verbatim>\<open>RandomState()\<close> starts from operating-system entropy: \<open>fresh\<close> is
  the stream such a generator would give. \<^verbatim>\<open>rng.seed(seed)\<close> replaces the whole state
  of the generator: \<open>seeded seed\<close> is the stream of a generator seeded with \<open>seed\<close>.
\<close>

definition rng_seed :: "(int \<Rightarrow> rng) \<Rightarrow> rng \<Rightarrow> int \<Rightarrow> rng" where
  "rng_seed seeded g seed = seeded seed"

definition wrapper ::
  "int \<Rightarrow> (mat \<Rightarrow> mat) \<Rightarrow> (int \<Rightarrow> rng) \<Rightarrow> rng \<Rightarrow>
   nat \<Rightarrow> string \<Rightarrow> nat \<Rightarrow> int \<Rightarrow> error + npfloat list" where
  "wrapper mem pinv seeded fresh n trend b seed =
     (let g = fresh;
          g = rng_seed seeded g seed;
          remaining = b;
          res = replicate b (Fin 0);
          finished = 0
      in if n = 0 then Inl ZeroDivisionError
         else
           let bs = block_size mem n in
           if bs = 0 then Inl ValueError
           else
             case block_loop pinv n trend bs (py_range b bs) (g, res, finished, remaining) of
               Inl e \<Rightarrow> Inl e
             | Inr (g', res', finished', remaining') \<Rightarrow> Inr res')"

section \<open>The experiment driver\<close>

text \<open>The constants of lines 19 to 25 and the grids of lines 96 to 101.\<close>

definition NUM_JOBS :: nat where "NUM_JOBS = 4"
definition EX_NUM :: nat where "EX_NUM = 500"
definition EX_SIZE :: nat where "EX_SIZE = 200000"
definition MAX_MEMORY_SIZE :: int where "MAX_MEMORY_SIZE = 100"

definition trends :: "string list" where
  "trends = [''nc'', ''c'', ''ct'', ''ctt'']"

definition T :: "nat list" where
  "T = rev [20, 25, 30, 35, 40, 45, 50, 60, 70, 80, 90, 100, 120, 140, 160,
            180, 200, 250, 300, 350, 400, 450, 500, 600, 700, 800, 900,
            1000, 1200, 1400, 2000]"

text \<open>
  The driver is modelled by the sequence of its actions that concern seeds and work:
  the draw of the seed schedule (line 105), the announcement of an experiment
  (line 116), the tasks handed to the work distributor (line 120) and the checkpoints
  (lines 127 and 130). The master generator \<^verbatim>\<open>RandomState(0)\<close> is the stream \<open>master\<close>
  of the integers that \<^verbatim>\<open>random_integers\<close> returns. The percentile reduction of
  lines 121 and 122 and the contents of the checkpoints are floating-point data and are
  left out; every task is taken to return.
\<close>

datatype event =
    SeedsDrawn "int list"
  | Experiment nat string
  | Task nat string nat int
  | Save string

definition draw_seeds :: "(nat \<Rightarrow> int) \<Rightarrow> int list" where
  "draw_seeds master = map master [0..<EX_NUM]"

definition filename :: "string \<Rightarrow> string" where
  "filename tr = ''adf_z_'' @ tr @ ''.npz''"

definition iteration :: "int list \<Rightarrow> string \<Rightarrow> nat \<Rightarrow> event list" where
  "iteration seeds tr i =
     Experiment (i + 1) tr #
     map (\<lambda>t. Task t tr EX_SIZE (seeds ! i)) T @
     (if i mod 50 = 0 then [Save (filename tr)] else [])"

definition trend_run :: "int list \<Rightarrow> string \<Rightarrow> event list" where
  "trend_run seeds tr =
     concat (map (iteration seeds tr) [0..<EX_NUM]) @ [Save (filename tr)]"

definition main :: "(nat \<Rightarrow> int) \<Rightarrow> event list" where
  "main master =
     (let seeds = draw_seeds master
      in SeedsDrawn seeds # concat (map (trend_run seeds) trends))"

fun is_draw :: "event \<Rightarrow> bool" where
  "is_draw (SeedsDrawn s) = True"
| "is_draw e = False"

fun task_of :: "event \<Rightarrow> (nat \<times> string \<times> nat \<times> int) option" where
  "task_of (Task t tr reps seed) = Some (t, tr, reps, seed)"
| "task_of e = None"

definition tasks_of :: "event list \<Rightarrow> (nat \<times> string \<times> nat \<times> int) list" where
  "tasks_of es = List.map_filter task_of es"

section \<open>The statistic as the specification words it\<close>

text \<open>
  The specification describes the statistic one replication at a time: a column of
  \<open>n + 50\<close> draws, its running sums, the burn-in, the observations \<open>1..n-1\<close> and
  \<open>0..n-2\<close>, the projection on the regressor matrix, the AR(1) coefficient. The
  definitions below follow that wording; they are compared with \<open>adf_simulation\<close>.
\<close>

datatype trendspec = TNone | TConstant | TConstantTrend | TConstantTrendTrend2

fun tag :: "trendspec \<Rightarrow> string" where
  "tag TNone = ''nc''"
| "tag TConstant = ''c''"
| "tag TConstantTrend = ''ct''"
| "tag TConstantTrendTrend2 = ''ctt''"

fun spec_build :: "trendspec \<Rightarrow> nat \<Rightarrow> mat" where
  "spec_build TNone nobs = replicate nobs []"
| "spec_build TConstant nobs = replicate nobs [1]"
| "spec_build TConstantTrend nobs = map (\<lambda>t. [1, real t]) [1..<nobs + 1]"
| "spec_build TConstantTrendTrend2 nobs =
     map (\<lambda>t. [1, real t, real t * real t]) [1..<nobs + 1]"

definition matvec :: "mat \<Rightarrow> vec \<Rightarrow> vec" where
  "matvec a x = map (\<lambda>row. inner row x) a"

definition spec_project :: "(mat \<Rightarrow> mat) \<Rightarrow> mat \<Rightarrow> vec \<Rightarrow> vec" where
  "spec_project pinv z series =
     (if list_all (\<lambda>row. row = []) z then series
      else map2 (-) series (matvec z (matvec (pinv z) series)))"

definition spec_statistic :: "(mat \<Rightarrow> mat) \<Rightarrow> nat \<Rightarrow> trendspec \<Rightarrow> vec \<Rightarrow> npfloat" where
  "spec_statistic pinv n ts draws =
     (let walk = map (\<lambda>i. sum_list (take (i + 1) draws)) [0..<n + 50];
          kept = map (\<lambda>i. walk ! (50 + i)) [0..<n];
          lhs = map (\<lambda>i. kept ! i) [1..<n];
          rhs = map (\<lambda>i. kept ! i) [0..<n - 1];
          z = spec_build ts (n - 1);
          lhs = spec_project pinv z lhs;
          rhs = spec_project pinv z rhs;
          gamma = np_div (inner rhs lhs) (inner rhs rhs)
      in np_scale (n - 1) (np_sub gamma 1))"

definition spec_simulate ::
  "(mat \<Rightarrow> mat) \<Rightarrow> nat \<Rightarrow> trendspec \<Rightarrow> nat \<Rightarrow> rng \<Rightarrow> npfloat list \<times> rng" where
  "spec_simulate pinv n ts b g =
     (let (y, g') = standard_normal (n + 50) b g
      in (map (\<lambda>j. spec_statistic pinv n ts (col j y)) [0..<b], g'))"

section \<open>The Moore-Penrose conditions\<close>

text \<open>
  What \<^verbatim>\<open>pinv\<close> computes is fixed, in exact arithmetic, by the four Penrose equations.
  For \<open>z\<close> with \<open>m\<close> rows and \<open>k\<close> columns the pseudo-inverse \<open>p\<close> has \<open>k\<close> rows and \<open>m\<close>
  columns.
\<close>

definition symmetric :: "mat \<Rightarrow> bool" where
  "symmetric a \<longleftrightarrow>
     list_all (\<lambda>i. list_all (\<lambda>j. a ! i ! j = a ! j ! i) [0..<length a]) [0..<length a]"


section \<open>Concrete inputs\<close>

definition ramp :: rng where
  "ramp i = real i"

definition ramp_seeded :: "int \<Rightarrow> rng" where
  "ramp_seeded seed i = real_of_int seed + real i"

definition pulse :: rng where
  "pulse i = (if i mod 65536 = 0 then 1 else 0)"

definition pulse_seeded :: "int \<Rightarrow> rng" where
  "pulse_seeded seed = pulse"

definition still :: rng where
  "still i = 0"

definition pinv_empty :: "mat \<Rightarrow> mat" where
  "pinv_empty z = []"


definition pinv_thirds :: "mat \<Rightarrow> mat" where
  "pinv_thirds z = [[1 / 3, 1 / 3, 1 / 3]]"

definition master_ramp :: "nat \<Rightarrow> int" where
  "master_ramp i = int i"

section \<open>Columns\<close>

text \<open>
  Every step of \<open>adf_simulation\<close> works on the columns of its arrays independently.
  The definitions below name what one column goes through; they are used to state the
  lemmas about the array operations.
\<close>

definition uniform :: "nat \<Rightarrow> mat \<Rightarrow> bool" where
  "uniform w m \<longleftrightarrow> list_all (\<lambda>row. length row = w) m"

fun cumsum_vec :: "real \<Rightarrow> vec \<Rightarrow> vec" where
  "cumsum_vec acc [] = []"
| "cumsum_vec acc (x # xs) = (acc + x) # cumsum_vec (acc + x) xs"


definition walk_lhs :: "vec \<Rightarrow> vec" where
  "walk_lhs c = drop 1 (drop 50 (cumsum_vec 0 c))"

definition walk_rhs :: "vec \<Rightarrow> vec" where
  "walk_rhs c = butlast (drop 50 (cumsum_vec 0 c))"

section \<open>Block size\<close>





section \<open>Trend tags\<close>

text \<open>
  Claim C4, as amended. A tag that is none of \<^verbatim>\<open>'c'\<close>, \<^verbatim>\<open>'ct'\<close>, \<^verbatim>\<open>'ctt'\<close> is not
  rejected: the generator treats it as the no-trend case, returns a statistic vector and
  that vector is the one of \<^verbatim>\<open>'nc'\<close>.
\<close>

theorem unknown_trend_is_no_trend:
  assumes "trend \<notin> {''c'', ''ct'', ''ctt''}"
  shows "adf_simulation pinv n trend b g = adf_simulation pinv n ''nc'' b g
       \<and> (\<exists>stat g'. adf_simulation pinv n trend b g = Inr (stat, g'))"
proof -
  have "trend_regressors n trend = Inr None" "trend_regressors n ''nc'' = Inr None"
    using assms by (simp_all add: trend_regressors_def)
  then show ?thesis
    by (simp add: adf_simulation_def detrend_def split: prod.splits)
qed

theorem unknown_trend_is_no_trend_witness:
  "adf_simulation pinv_empty 2 ''foo'' 1 ramp = adf_simulation pinv_empty 2 ''nc'' 1 ramp
   \<and> (\<exists>stat g'. adf_simulation pinv_empty 2 ''foo'' 1 ramp = Inr (stat, g'))"
proof -
  have h: "''foo'' \<notin> {''c'', ''ct'', ''ctt''}" by simp
  show ?thesis by (rule unknown_trend_is_no_trend [OF h])
qed

theorem invalid_trend_counterexample:
  "map_sum id fst (adf_simulation pinv_empty 2 ''foo'' 1 ramp) = Inr [Fin (1 / 25)]"
  by code_simp

text \<open>
  Claim C7. For the tag \<^verbatim>\<open>'nc'\<close> there is no regressor matrix, the detrending step
  returns \<open>lhs\<close> and \<open>rhs\<close> as they are, whatever \<open>pinv\<close> is, and the statistic is computed
  from the random walks as generated.
\<close>

theorem no_trend_no_projection:
  "trend_regressors n ''nc'' = Inr None
   \<and> detrend pinv b None lhs rhs = Inr (lhs, rhs)
   \<and> adf_simulation pinv n ''nc'' b g =
       (let ((lhs, rhs), g') = random_walks n b g in Inr (ar1_statistic b lhs rhs, g'))"
  by (simp add: trend_regressors_def adf_simulation_def detrend_def split: prod.splits)

section \<open>Seeding\<close>


section \<open>Array operations, column by column\<close>

lemma uniform_Nil [simp]: "uniform w []"
  by (simp add: uniform_def)

lemma uniform_Cons [simp]: "uniform w (r # m) \<longleftrightarrow> length r = w \<and> uniform w m"
  by (simp add: uniform_def)

lemma uniform_drop: "uniform w m \<Longrightarrow> uniform w (drop k m)"
  by (auto simp: uniform_def list_all_iff dest: in_set_dropD)

lemma uniform_butlast: "uniform w m \<Longrightarrow> uniform w (butlast m)"
  by (auto simp: uniform_def list_all_iff dest: in_set_butlastD)

lemma col_Nil [simp]: "col j [] = []"
  by (simp add: col_def)

lemma col_Cons [simp]: "col j (r # m) = r ! j # col j m"
  by (simp add: col_def)

lemma length_col [simp]: "length (col j m) = length m"
  by (simp add: col_def)

lemma col_drop: "col j (drop k m) = drop k (col j m)"
  by (simp add: col_def drop_map)

lemma col_butlast: "col j (butlast m) = butlast (col j m)"
  by (simp add: col_def map_butlast)

lemma standard_normal_uniform: "uniform w (fst (standard_normal r w g))"
  by (simp add: standard_normal_def uniform_def list_all_iff)

lemma standard_normal_length: "length (fst (standard_normal r w g)) = r"
  by (simp add: standard_normal_def)

lemma standard_normal_col:
  "j < w \<Longrightarrow> col j (fst (standard_normal r w g)) = map (\<lambda>i. g (i * w + j)) [0..<r]"
  by (simp add: standard_normal_def col_def)

lemma length_vadd: "length xs = w \<Longrightarrow> length ys = w \<Longrightarrow> length (vadd xs ys) = w"
  by (simp add: vadd_def)

lemma nth_vadd: "j < length xs \<Longrightarrow> j < length ys \<Longrightarrow> vadd xs ys ! j = xs ! j + ys ! j"
  by (simp add: vadd_def)

lemma cumsum_from_length [simp]: "length (cumsum_from acc m) = length m"
  by (induction m arbitrary: acc) simp_all

lemma cumsum_from_uniform:
  "length acc = w \<Longrightarrow> uniform w m \<Longrightarrow> uniform w (cumsum_from acc m)"
  by (induction m arbitrary: acc) (simp_all add: length_vadd)

lemma cumsum_from_col:
  "length acc = w \<Longrightarrow> uniform w m \<Longrightarrow> j < w \<Longrightarrow>
   col j (cumsum_from acc m) = cumsum_vec (acc ! j) (col j m)"
  by (induction m arbitrary: acc) (simp_all add: length_vadd nth_vadd)

lemma foldl_vadd_length:
  "length acc = w \<Longrightarrow> uniform w m \<Longrightarrow> length (foldl vadd acc m) = w"
  by (induction m arbitrary: acc) (simp_all add: length_vadd)

lemma foldl_vadd_nth:
  "length acc = w \<Longrightarrow> uniform w m \<Longrightarrow> j < w \<Longrightarrow>
   foldl vadd acc m ! j = acc ! j + sum_list (col j m)"
  by (induction m arbitrary: acc) (simp_all add: length_vadd nth_vadd)

lemma sum_axis0_length: "uniform w m \<Longrightarrow> length (sum_axis0 w m) = w"
  by (simp add: sum_axis0_def foldl_vadd_length)

lemma sum_axis0_nth: "uniform w m \<Longrightarrow> j < w \<Longrightarrow> sum_axis0 w m ! j = sum_list (col j m)"
  by (simp add: sum_axis0_def foldl_vadd_nth)

lemma uniform_map2:
  "uniform w a \<Longrightarrow> uniform w b \<Longrightarrow> uniform w (map2 (map2 f) a b)"
proof (induction a arbitrary: b)
  case Nil
  then show ?case by simp
next
  case (Cons r a)
  then show ?case by (cases b) simp_all
qed

lemma col_map2:
  "uniform w a \<Longrightarrow> uniform w b \<Longrightarrow> j < w \<Longrightarrow>
   col j (map2 (map2 f) a b) = map2 f (col j a) (col j b)"
proof (induction a arbitrary: b)
  case Nil
  then show ?case by simp
next
  case (Cons r a)
  then show ?case by (cases b) simp_all
qed

lemma uniform_msquare: "uniform w a \<Longrightarrow> uniform w (msquare a)"
  by (simp add: msquare_def uniform_def list_all_iff)

lemma col_msquare: "uniform w a \<Longrightarrow> j < w \<Longrightarrow> col j (msquare a) = map (\<lambda>x. x ^ 2) (col j a)"
  by (simp add: msquare_def col_def uniform_def list_all_iff)

lemma uniform_dot: "uniform w (dot w a b)"
  by (simp add: dot_def uniform_def list_all_iff)

lemma length_dot [simp]: "length (dot w a b) = length a"
  by (simp add: dot_def)

lemma col_dot: "j < w \<Longrightarrow> col j (dot w a b) = matvec a (col j b)"
  by (simp add: dot_def col_def matvec_def)

lemma uniform_project: "uniform w s \<Longrightarrow> uniform w (project w z zi s)"
  by (simp add: project_def msub_def uniform_map2 uniform_dot)

lemma col_project:
  "uniform w s \<Longrightarrow> j < w \<Longrightarrow>
   col j (project w z zi s) = map2 (-) (col j s) (matvec z (matvec zi (col j s)))"
  by (simp add: project_def msub_def col_map2 uniform_dot col_dot)

lemma length_project: "length z = length s \<Longrightarrow> length (project w z zi s) = length s"
  by (simp add: project_def msub_def)

lemma inner_self: "inner xs xs = sum_list (map (\<lambda>x. x ^ 2) xs)"
  by (induction xs) (simp_all add: inner_def power2_eq_square)

lemma ar1_statistic_length:
  "uniform w lhs \<Longrightarrow> uniform w rhs \<Longrightarrow> length (ar1_statistic w lhs rhs) = w"
  by (simp add: ar1_statistic_def Let_def sum_axis0_length mmul_def uniform_map2 uniform_msquare)

lemma ar1_statistic_nth:
  assumes "uniform w lhs" "uniform w rhs" "j < w"
  shows "ar1_statistic w lhs rhs ! j =
     np_scale (length lhs)
       (np_sub (np_div (inner (col j rhs) (col j lhs)) (inner (col j rhs) (col j rhs))) 1)"
  using assms
  by (simp add: ar1_statistic_def Let_def sum_axis0_length sum_axis0_nth mmul_def
      uniform_map2 uniform_msquare col_map2 col_msquare inner_self) (simp add: inner_def)

lemma cumsum_vec_length [simp]: "length (cumsum_vec a c) = length c"
  by (induction c arbitrary: a) simp_all

lemma cumsum_vec_nth:
  "i < length c \<Longrightarrow> cumsum_vec a c ! i = a + sum_list (take (i + 1) c)"
proof (induction c arbitrary: a i)
  case Nil
  then show ?case by simp
next
  case (Cons x c)
  then show ?case by (cases i) simp_all
qed

lemma running_sums:
  "length c = m \<Longrightarrow> map (\<lambda>i. sum_list (take (i + 1) c)) [0..<m] = cumsum_vec 0 c"
  by (rule nth_equalityI) (simp_all add: cumsum_vec_nth)

lemma burn_in: "length xs = n + 50 \<Longrightarrow> map (\<lambda>i. xs ! (50 + i)) [0..<n] = drop 50 xs"
  by (rule nth_equalityI) simp_all

lemma rows_from_one: "length xs = n \<Longrightarrow> map (\<lambda>i. xs ! i) [1..<n] = drop 1 xs"
  by (rule nth_equalityI) simp_all

lemma rows_but_last: "length xs = n \<Longrightarrow> map (\<lambda>i. xs ! i) [0..<n - 1] = butlast xs"
  by (rule nth_equalityI) (simp_all add: nth_butlast)

lemma spec_statistic_unfold:
  assumes "length c = n + 50"
  shows "spec_statistic pinv n ts c =
     (let z = spec_build ts (n - 1);
          lhs = spec_project pinv z (walk_lhs c);
          rhs = spec_project pinv z (walk_rhs c)
      in np_scale (n - 1) (np_sub (np_div (inner rhs lhs) (inner rhs rhs)) 1))"
proof -
  have w: "map (\<lambda>i. sum_list (take (i + 1) c)) [0..<n + 50] = cumsum_vec 0 c"
    using assms by (rule running_sums)
  have k: "map (\<lambda>i. cumsum_vec 0 c ! (50 + i)) [0..<n] = drop 50 (cumsum_vec 0 c)"
    using assms by (simp add: burn_in)
  have len: "length (drop 50 (cumsum_vec 0 c)) = n"
    using assms by simp
  show ?thesis
    unfolding spec_statistic_def w Let_def k rows_from_one [OF len] rows_but_last [OF len]
      walk_lhs_def walk_rhs_def ..
qed

lemma random_walks_eq:
  "random_walks n b g =
     ((drop 1 (drop 50 (cumsum_axis0 b (fst (standard_normal (n + 50) b g)))),
       butlast (drop 50 (cumsum_axis0 b (fst (standard_normal (n + 50) b g))))),
      snd (standard_normal (n + 50) b g))"
  by (simp add: random_walks_def Let_def split: prod.splits)

lemma cumsum_axis0_uniform: "uniform w m \<Longrightarrow> uniform w (cumsum_axis0 w m)"
  by (simp add: cumsum_axis0_def cumsum_from_uniform)

lemma cumsum_axis0_col:
  "uniform w m \<Longrightarrow> j < w \<Longrightarrow> col j (cumsum_axis0 w m) = cumsum_vec 0 (col j m)"
  by (simp add: cumsum_axis0_def cumsum_from_col)

lemma cumsum_axis0_length: "length (cumsum_axis0 w m) = length m"
  by (simp add: cumsum_axis0_def)

lemma random_walks_shape:
  assumes "random_walks n b g = ((lhs, rhs), g')"
  shows "uniform b lhs" "uniform b rhs" "length lhs = n - 1" "length rhs = n - 1"
    "g' = snd (standard_normal (n + 50) b g)"
  using assms unfolding random_walks_eq
  by (auto simp: uniform_drop uniform_butlast cumsum_axis0_uniform standard_normal_uniform
      cumsum_axis0_length standard_normal_length)

lemma random_walks_col:
  assumes "random_walks n b g = ((lhs, rhs), g')" "j < b"
  shows "col j lhs = walk_lhs (col j (fst (standard_normal (n + 50) b g)))"
    "col j rhs = walk_rhs (col j (fst (standard_normal (n + 50) b g)))"
  using assms unfolding random_walks_eq walk_lhs_def walk_rhs_def
  by (auto simp: col_drop col_butlast cumsum_axis0_col standard_normal_uniform
      cumsum_axis0_uniform)

lemma trend_regressors_tag:
  "0 < n \<Longrightarrow> trend_regressors n (tag ts) =
     Inr (if ts = TNone then None else Some (spec_build ts (n - 1)))"
  by (cases ts) (simp_all add: trend_regressors_def power2_eq_square Let_def del: upt_Suc)

lemma spec_build_not_blank:
  "ts \<noteq> TNone \<Longrightarrow> 0 < nobs \<Longrightarrow> \<not> list_all (\<lambda>row. row = []) (spec_build ts nobs)"
  by (cases ts; cases nobs) (simp_all add: upt_rec)

lemma length_spec_build [simp]: "length (spec_build ts nobs) = nobs"
  by (cases ts) simp_all

lemma detrend_columns:
  assumes n: "2 \<le> n"
    and fits: "ts \<noteq> TNone \<longrightarrow> aligned (spec_build ts (n - 1)) (pinv (spec_build ts (n - 1)))"
    and u: "uniform b lhs" "uniform b rhs"
    and len: "length lhs = n - 1" "length rhs = n - 1"
  shows "\<exists>lhs' rhs'.
     detrend pinv b (if ts = TNone then None else Some (spec_build ts (n - 1))) lhs rhs
       = Inr (lhs', rhs')
     \<and> uniform b lhs' \<and> uniform b rhs' \<and> length lhs' = n - 1
     \<and> (\<forall>j<b. col j lhs' = spec_project pinv (spec_build ts (n - 1)) (col j lhs)
            \<and> col j rhs' = spec_project pinv (spec_build ts (n - 1)) (col j rhs))"
proof (cases "ts = TNone")
  case True
  then show ?thesis using u len by (simp add: detrend_def spec_project_def list_all_iff)
next
  case False
  have nb: "\<not> list_all (\<lambda>row. row = []) (spec_build ts (n - 1))"
    using False n by (simp add: spec_build_not_blank)
  show ?thesis
    using False fits u len nb
    by (simp add: detrend_def Let_def uniform_project col_project spec_project_def
        length_project)
qed

lemma adf_simulation_refines:
  assumes n: "2 \<le> n"
    and fits: "ts \<noteq> TNone \<longrightarrow> aligned (spec_build ts (n - 1)) (pinv (spec_build ts (n - 1)))"
  shows "adf_simulation pinv n (tag ts) b g = Inr (spec_simulate pinv n ts b g)"
proof -
  obtain lhs rhs g' where rw: "random_walks n b g = ((lhs, rhs), g')"
    by (metis prod.exhaust)
  note sh = random_walks_shape [OF rw]
  obtain lhs' rhs' where
    d: "detrend pinv b (if ts = TNone then None else Some (spec_build ts (n - 1))) lhs rhs
          = Inr (lhs', rhs')"
    and u': "uniform b lhs'" "uniform b rhs'" and len': "length lhs' = n - 1"
    and cols: "\<And>j. j < b \<Longrightarrow>
        col j lhs' = spec_project pinv (spec_build ts (n - 1)) (col j lhs)
      \<and> col j rhs' = spec_project pinv (spec_build ts (n - 1)) (col j rhs)"
    using detrend_columns [where pinv = pinv and ts = ts and n = n and b = b
        and lhs = lhs and rhs = rhs, OF n fits sh(1) sh(2) sh(3) sh(4)] by blast
  have run: "adf_simulation pinv n (tag ts) b g = Inr (ar1_statistic b lhs' rhs', g')"
    using n by (simp add: adf_simulation_def trend_regressors_tag rw d)
  have stat: "ar1_statistic b lhs' rhs' =
      map (\<lambda>j. spec_statistic pinv n ts (col j (fst (standard_normal (n + 50) b g)))) [0..<b]"
  proof (rule nth_equalityI)
    show "length (ar1_statistic b lhs' rhs') = length (map (\<lambda>j. spec_statistic pinv n ts
        (col j (fst (standard_normal (n + 50) b g)))) [0..<b])"
      using u' by (simp add: ar1_statistic_length)
  next
    fix j assume "j < length (ar1_statistic b lhs' rhs')"
    then have j: "j < b" using u' by (simp add: ar1_statistic_length)
    have lc: "length (col j (fst (standard_normal (n + 50) b g))) = n + 50"
      by (simp add: standard_normal_length)
    show "ar1_statistic b lhs' rhs' ! j = map (\<lambda>j. spec_statistic pinv n ts
        (col j (fst (standard_normal (n + 50) b g)))) [0..<b] ! j"
      using j cols [OF j] random_walks_col [OF rw j]
      by (simp add: ar1_statistic_nth [OF u' j] len' spec_statistic_unfold [OF lc] Let_def)
  qed
  show ?thesis
    unfolding run stat spec_simulate_def sh(5)
    by (simp add: split_beta)
qed

lemma spec_simulate_length: "length (fst (spec_simulate pinv n ts b g)) = b"
  by (simp add: spec_simulate_def split_beta)

section \<open>The generator against its description\<close>

text \<open>
  Claim C2. For \<open>n \<ge> 2\<close> and a valid trend tag, \<open>adf_simulation\<close> returns what the
  description computes: an \<open>(n + 50)\<close> by \<open>b\<close> array of draws, and for every column its
  running sums, without the first 50, split into the observations \<open>1..n-1\<close> and
  \<open>0..n-2\<close>, both projected with the regressor matrix for \<open>n - 1\<close> observations and its
  pseudo-inverse, and the statistic \<open>(n - 1) * (gamma - 1)\<close> with \<open>gamma\<close> the quotient
  of the sum of \<open>rhs * lhs\<close> by the sum of \<open>rhs\<^sup>2\<close>. The pseudo-inverse is assumed to
  have the shape of the transpose, as \<^verbatim>\<open>pinv\<close> returns it.
\<close>

theorem adf_simulation_follows_spec:
  assumes "2 \<le> n"
    and "ts \<noteq> TNone \<longrightarrow> aligned (spec_build ts (n - 1)) (pinv (spec_build ts (n - 1)))"
  shows "adf_simulation pinv n (tag ts) b g = Inr (spec_simulate pinv n ts b g)"
  using assms by (rule adf_simulation_refines)

theorem adf_simulation_follows_spec_witness:
  "adf_simulation pinv_thirds 4 ''c'' 2 ramp = Inr (spec_simulate pinv_thirds 4 TConstant 2 ramp)"
proof -
  have h1: "(2::nat) \<le> 4" by simp
  have h2: "TConstant \<noteq> TNone \<longrightarrow>
      aligned (spec_build TConstant (4 - 1)) (pinv_thirds (spec_build TConstant (4 - 1)))"
    by (simp add: aligned_def pinv_thirds_def numeral_eq_Suc)
  show ?thesis
    using adf_simulation_follows_spec [where n = 4 and ts = TConstant and pinv = pinv_thirds
        and b = 2 and g = ramp, OF h1 h2] by simp
qed


lemma trend_regressors_ctt:
  "0 < n \<Longrightarrow> \<exists>z. trend_regressors n ''ctt'' = Inr (Some z) \<and> length z = n - 1
     \<and> list_all (\<lambda>row. length row = 3) z"
  by (simp add: trend_regressors_def Let_def list_all_iff del: upt_Suc)

text \<open>
  Claim C9. For \<open>n \<ge> 2\<close>, \<open>b \<ge> 1\<close> and a valid trend tag \<open>adf_simulation\<close> returns a
  vector of length \<open>b\<close>, and the regressor matrix of \<^verbatim>\<open>'ctt'\<close> has \<open>n - 1\<close> rows of
  3 entries.
\<close>

theorem adf_simulation_shapes:
  assumes "2 \<le> n" and "1 \<le> b"
    and "ts \<noteq> TNone \<longrightarrow> aligned (spec_build ts (n - 1)) (pinv (spec_build ts (n - 1)))"
  shows "(\<exists>stat g'. adf_simulation pinv n (tag ts) b g = Inr (stat, g') \<and> length stat = b)
       \<and> (\<exists>z. trend_regressors n ''ctt'' = Inr (Some z) \<and> length z = n - 1
              \<and> list_all (\<lambda>row. length row = 3) z)"
proof -
  have "adf_simulation pinv n (tag ts) b g =
      Inr (fst (spec_simulate pinv n ts b g), snd (spec_simulate pinv n ts b g))"
    using assms(1,3) by (simp add: adf_simulation_refines)
  then have "\<exists>stat g'. adf_simulation pinv n (tag ts) b g = Inr (stat, g') \<and> length stat = b"
    using spec_simulate_length by blast
  moreover have "\<exists>z. trend_regressors n ''ctt'' = Inr (Some z) \<and> length z = n - 1
              \<and> list_all (\<lambda>row. length row = 3) z"
    using assms(1) by (intro trend_regressors_ctt) simp
  ultimately show ?thesis by simp
qed

theorem adf_simulation_shapes_witness:
  "(\<exists>stat g'. adf_simulation pinv_thirds 4 ''c'' 2 ramp = Inr (stat, g') \<and> length stat = 2)
   \<and> (\<exists>z. trend_regressors 4 ''ctt'' = Inr (Some z) \<and> length z = 3
          \<and> list_all (\<lambda>row. length row = 3) z)"
proof -
  have h1: "(2::nat) \<le> 4" and h2: "(1::nat) \<le> 2" by simp_all
  have h3: "TConstant \<noteq> TNone \<longrightarrow>
      aligned (spec_build TConstant (4 - 1)) (pinv_thirds (spec_build TConstant (4 - 1)))"
    by (simp add: aligned_def pinv_thirds_def numeral_eq_Suc)
  show ?thesis
    using adf_simulation_shapes [where n = 4 and ts = TConstant and pinv = pinv_thirds
        and b = 2 and g = ramp, OF h1 h2 h3] by simp
qed




lemma detrend_uniform:
  assumes "detrend pinv w z lhs rhs = Inr (lhs', rhs')" "uniform w lhs" "uniform w rhs"
  shows "uniform w lhs'" "uniform w rhs'"
  using assms
  by (auto simp: detrend_def Let_def uniform_project split: option.splits if_splits)

lemma adf_simulation_length:
  assumes "adf_simulation pinv n trend b g = Inr (stat, g')"
  shows "length stat = b"
proof -
  obtain lhs rhs g1 where rw: "random_walks n b g = ((lhs, rhs), g1)"
    by (metis prod.exhaust)
  from assms obtain z lhs' rhs' where
    d: "detrend pinv b z lhs rhs = Inr (lhs', rhs')" and s: "stat = ar1_statistic b lhs' rhs'"
    by (auto simp: adf_simulation_def rw split: sum.splits)
  show ?thesis
    unfolding s
    using detrend_uniform [OF d random_walks_shape(1,2) [OF rw]]
    by (simp add: ar1_statistic_length)
qed



section \<open>The seed schedule\<close>

lemma length_draw_seeds: "length (draw_seeds master) = EX_NUM"
  by (simp add: draw_seeds_def)

lemma nth_draw_seeds: "i < EX_NUM \<Longrightarrow> draw_seeds master ! i = master i"
  by (simp add: draw_seeds_def)

lemma iteration_no_draw: "filter is_draw (iteration seeds tr i) = []"
  by (simp add: iteration_def filter_empty_conv image_iff)

lemma trend_run_no_draw: "filter is_draw (trend_run seeds tr) = []"
  by (simp add: trend_run_def filter_concat iteration_no_draw comp_def)

lemma tasks_of_append: "tasks_of (xs @ ys) = tasks_of xs @ tasks_of ys"
  by (simp add: tasks_of_def map_filter_def)

lemma tasks_of_tasks: "tasks_of (map (\<lambda>t. Task t tr reps seed) ts) = map (\<lambda>t. (t, tr, reps, seed)) ts"
  by (induction ts) (simp_all add: tasks_of_def map_filter_def)

lemma tasks_of_iteration:
  "tasks_of (iteration seeds tr i) = map (\<lambda>t. (t, tr, EX_SIZE, seeds ! i)) T"
proof -
  have "iteration seeds tr i =
      [Experiment (i + 1) tr] @ map (\<lambda>t. Task t tr EX_SIZE (seeds ! i)) T @
      (if i mod 50 = 0 then [Save (filename tr)] else [])"
    by (simp add: iteration_def)
  then show ?thesis
    by (simp add: tasks_of_append tasks_of_tasks) (simp add: tasks_of_def map_filter_def)
qed

text \<open>
  Claim C6. The seed schedule has \<open>EX_NUM\<close> entries and is the first action of the
  driver; nothing after it draws seeds. Every run of a trend consists of the \<open>EX_NUM\<close>
  experiment iterations, and in iteration \<open>i\<close> every sample size of \<open>T\<close> is dispatched
  with the same seed, entry \<open>i\<close> of the schedule.
\<close>

theorem seed_schedule_reused:
  assumes "i < EX_NUM"
  shows "length (draw_seeds master) = EX_NUM
       \<and> main master =
           SeedsDrawn (draw_seeds master) # concat (map (trend_run (draw_seeds master)) trends)
       \<and> filter is_draw (concat (map (trend_run (draw_seeds master)) trends)) = []
       \<and> trend_run (draw_seeds master) tr =
           concat (map (iteration (draw_seeds master) tr) [0..<EX_NUM]) @ [Save (filename tr)]
       \<and> tasks_of (iteration (draw_seeds master) tr i) =
           map (\<lambda>t. (t, tr, EX_SIZE, draw_seeds master ! i)) T
       \<and> draw_seeds master ! i = master i"
  using assms
  by (simp add: length_draw_seeds nth_draw_seeds tasks_of_iteration main_def Let_def
      filter_concat trend_run_no_draw comp_def) (simp add: trend_run_def)

theorem seed_schedule_reused_witness:
  "length (draw_seeds master_ramp) = 500
   \<and> tasks_of (iteration (draw_seeds master_ramp) ''ct'' 7) =
       map (\<lambda>t. (t, ''ct'', 200000, 7)) T"
proof -
  have h: "7 < EX_NUM" by (simp add: EX_NUM_def)
  show ?thesis
    using seed_schedule_reused [OF h, of master_ramp "''ct''"]
    by (simp add: EX_NUM_def EX_SIZE_def master_ramp_def)
qed

section \<open>Blocks and the memory budget\<close>

lemma py_range_single: "0 < b \<Longrightarrow> int b \<le> bs \<Longrightarrow> py_range b bs = [0]"
proof -
  assume b: "0 < b" and le: "int b \<le> bs"
  then have pos: "0 < bs" and nb: "b \<le> nat bs" by simp_all
  have "(b + nat bs - 1) div nat bs = 1"
    using b nb by (simp add: div_nat_eqI)
  then show ?thesis using pos by (simp add: py_range_def)
qed

lemma py_range_first:
  "0 < b \<Longrightarrow> 0 < bs \<Longrightarrow> \<exists>js. py_range b bs = 0 # js"
proof -
  assume b: "0 < b" and pos: "0 < bs"
  then have "0 < (b + nat bs - 1) div nat bs"
    by (simp add: div_greater_zero_iff)
  then obtain k where "(b + nat bs - 1) div nat bs = Suc k"
    using gr0_implies_Suc by blast
  then show ?thesis using pos by (simp add: py_range_def upt_rec del: upt_Suc)
qed

lemma wrapper_single_block:
  assumes "0 < n" "0 < b" "int b \<le> block_size mem n"
  shows "wrapper mem pinv seeded fresh n trend b seed =
     (case adf_simulation pinv n trend b (seeded seed) of
        Inl e \<Rightarrow> Inl e
      | Inr (stat, g') \<Rightarrow> Inr (assign_slice (replicate b (Fin 0)) 0 b stat))"
  using assms
  by (auto simp: wrapper_def Let_def py_range_single rng_seed_def split: sum.splits)

text \<open>
  Claim C1, as amended. Two memory budgets give the same vector when they give the same
  block size, or when both block sizes are at least \<open>b\<close>, so that all \<open>b\<close>
  replications are drawn as one block; this covers \<open>n = 50\<close>, \<open>b = 1000\<close> with 1 MiB
  and 100 MiB.
\<close>

theorem wrapper_same_blocks:
  assumes "2 \<le> n" and "1 \<le> b"
    and "block_size mem n = block_size mem' n
       \<or> (int b \<le> block_size mem n \<and> int b \<le> block_size mem' n)"
  shows "wrapper mem pinv seeded fresh n trend b seed =
         wrapper mem' pinv seeded fresh n trend b seed"
  using assms(3)
proof
  assume "block_size mem n = block_size mem' n"
  then show ?thesis by (simp add: wrapper_def)
next
  assume "int b \<le> block_size mem n \<and> int b \<le> block_size mem' n"
  then show ?thesis using assms(1,2) by (simp add: wrapper_single_block)
qed

theorem wrapper_same_blocks_witness:
  "wrapper 1 pinv_empty ramp_seeded ramp 50 ''nc'' 1000 0 =
   wrapper 100 pinv_empty ramp_seeded ramp 50 ''nc'' 1000 0"
proof -
  have h1: "(2::nat) \<le> 50" and h2: "(1::nat) \<le> 1000" by simp_all
  have h3: "block_size 1 50 = block_size 100 50
       \<or> (int 1000 \<le> block_size 1 50 \<and> int 1000 \<le> block_size 100 50)"
    by (simp add: block_size_def int_trunc_quot_def)
  show ?thesis by (rule wrapper_same_blocks [OF h1 h2 h3])
qed

lemma length_assign_slice:
  "length vals = en - st \<Longrightarrow> st \<le> en \<Longrightarrow> en \<le> length res \<Longrightarrow>
   length (assign_slice res st en vals) = length res"
  by (simp add: assign_slice_def)

lemma nth_assign_slice_before:
  "k < st \<Longrightarrow> st \<le> length res \<Longrightarrow> assign_slice res st en vals ! k = res ! k"
  by (simp add: assign_slice_def nth_append)

lemma block_loop_keeps:
  "block_loop pinv n trend bs js (g, res, fin, rem) = Inr (g', res', fin', rem') \<Longrightarrow>
   fin + rem \<le> length res \<Longrightarrow> k < fin \<Longrightarrow>
   res' ! k = res ! k \<and> length res' = length res"
proof (induction js arbitrary: g res fin rem)
  case Nil
  then show ?case by simp
next
  case (Cons j js)
  define count where "count = (if bs < int rem then nat bs else rem)"
  have cnt: "count \<le> rem" by (auto simp: count_def nat_le_iff)
  from Cons.prems(1) obtain stat g1 where
    a: "adf_simulation pinv n trend count g = Inr (stat, g1)"
    and rest: "block_loop pinv n trend bs js
        (g1, assign_slice res fin (fin + count) stat, fin + count, rem - count)
        = Inr (g', res', fin', rem')"
    by (auto simp: Let_def count_def split: sum.splits)
  have ls: "length stat = count" using a by (rule adf_simulation_length)
  have len: "length (assign_slice res fin (fin + count) stat) = length res"
    using ls cnt Cons.prems(2) by (simp add: length_assign_slice)
  have keep: "assign_slice res fin (fin + count) stat ! k = res ! k"
    using Cons.prems(2,3) by (simp add: nth_assign_slice_before)
  have "res' ! k = assign_slice res fin (fin + count) stat ! k
      \<and> length res' = length (assign_slice res fin (fin + count) stat)"
    using Cons.IH [OF rest] len cnt Cons.prems(2,3) by simp
  then show ?case using len keep by simp
qed

lemma adf_simulation_nc:
  "2 \<le> n \<Longrightarrow> adf_simulation pinv n ''nc'' b g = Inr (spec_simulate pinv n TNone b g)"
  using adf_simulation_refines [where ts = TNone and n = n and pinv = pinv and b = b and g = g]
  by simp

lemma block_loop_nc_total:
  "2 \<le> n \<Longrightarrow> \<exists>st'. block_loop pinv n ''nc'' bs js st = Inr st'"
proof (induction js arbitrary: st)
  case Nil
  then show ?case by (cases st) auto
next
  case (Cons j js)
  obtain g res fin rem where st: "st = (g, res, fin, rem)"
    by (cases st) auto
  show ?case
    using Cons unfolding st
    by (simp add: Let_def adf_simulation_nc split_beta)
qed

lemma wrapper_first_entry:
  assumes n: "2 \<le> n" and b: "0 < b" and bs: "0 < block_size mem n"
    and c: "c = (if block_size mem n < int b then nat (block_size mem n) else b)"
  shows "\<exists>res. wrapper mem pinv seeded fresh n ''nc'' b seed = Inr res \<and> length res = b
       \<and> res ! 0 = spec_statistic pinv n TNone (map (\<lambda>i. seeded seed (i * c)) [0..<n + 50])"
proof -
  let ?g = "seeded seed"
  let ?bs = "block_size mem n"
  let ?res0 = "replicate b (Fin 0)"
  obtain js where js: "py_range b ?bs = 0 # js"
    using py_range_first [OF b bs] by blast
  have cpos: "0 < c" and cle: "c \<le> b" using b bs c by auto
  obtain s1 g1 where sim: "spec_simulate pinv n TNone c ?g = (s1, g1)"
    by (metis prod.exhaust)
  have ls1: "length s1 = c"
    using spec_simulate_length [of pinv n TNone c ?g] sim by simp
  have s10: "s1 ! 0 = spec_statistic pinv n TNone (map (\<lambda>i. ?g (i * c)) [0..<n + 50])"
    using sim cpos standard_normal_col [of 0 c "n + 50" ?g]
    by (auto simp: spec_simulate_def split_beta)
  let ?res1 = "assign_slice ?res0 0 c s1"
  obtain g' res' fin' rem' where rest:
    "block_loop pinv n ''nc'' ?bs js (g1, ?res1, c, b - c) = Inr (g', res', fin', rem')"
    using block_loop_nc_total [OF n] by (metis prod_cases4)
  have len1: "length ?res1 = b"
    using ls1 cle by (simp add: length_assign_slice)
  have r10: "?res1 ! 0 = s1 ! 0"
    using cpos ls1 by (simp add: assign_slice_def nth_append)
  have keep: "res' ! 0 = ?res1 ! 0 \<and> length res' = length ?res1"
    using block_loop_keeps [OF rest] len1 cle cpos by simp
  have step: "block_loop pinv n ''nc'' ?bs (0 # js) (?g, ?res0, 0, b) =
      block_loop pinv n ''nc'' ?bs js (g1, ?res1, c, b - c)"
    by (simp add: Let_def c [symmetric] adf_simulation_nc [OF n] sim)
  have "wrapper mem pinv seeded fresh n ''nc'' b seed = Inr res'"
    using n bs by (simp add: wrapper_def Let_def js rng_seed_def step rest del: block_loop.simps)
  then show ?thesis using keep len1 r10 s10 by simp
qed

text \<open>
  With the budgets 1 MiB and 100 MiB, \<open>n = 2\<close> and \<open>b = 65537\<close> the block sizes are
  65536 and 6553600: the first run draws a 52 by 65536 array and then a 52 by 1 array,
  the second a single 52 by 65537 array. The first replication is column 0 of the first
  array in both runs, that is the variates \<open>0, 65536, 2 * 65536, \<dots>\<close> of the stream in
  the first run and \<open>0, 65537, 2 * 65537, \<dots>\<close> in the second.
\<close>

lemma pulse_mult: "pulse (i * 65536) = 1"
  by (simp add: pulse_def)

lemma pulse_next: "i < 65536 \<Longrightarrow> pulse (i * 65537) = (if i = 0 then 1 else 0)"
proof -
  assume "i < 65536"
  have "i * 65537 = i * 65536 + i" by simp
  then have "i * 65537 mod 65536 = i mod 65536"
    by (metis mod_mult_self4 mult.commute)
  then show ?thesis using \<open>i < 65536\<close> by (simp add: pulse_def)
qed

lemma col_one: "map (\<lambda>i. pulse (i * 65536)) [0..<52] = replicate 52 1"
  by (simp add: pulse_mult map_replicate_const del: upt_rec_numeral)

lemma col_hundred: "map (\<lambda>i. pulse (i * 65537)) [0..<52] = 1 # replicate 51 0"
proof (rule nth_equalityI)
  show "length (map (\<lambda>i. pulse (i * 65537)) [0..<52]) = length (1 # replicate 51 (0::real))"
    by simp
next
  fix i assume "i < length (map (\<lambda>i. pulse (i * 65537)) [0..<52])"
  then have i: "i < 52" by simp
  have "map (\<lambda>i. pulse (i * 65537)) [0..<52] ! i = pulse (i * 65537)"
    using i by (simp del: upt_rec_numeral)
  also have "\<dots> = (if i = 0 then 1 else 0)"
    using i by (simp add: pulse_next)
  also have "\<dots> = (1 # replicate 51 0) ! i"
    using i by (simp add: nth_Cons')
  finally show "map (\<lambda>i. pulse (i * 65537)) [0..<52] ! i = (1 # replicate 51 0) ! i" .
qed

lemma stat_one: "spec_statistic pinv_empty 2 TNone (replicate 52 1) = Fin (1 / 51)"
  by code_simp

lemma stat_hundred: "spec_statistic pinv_empty 2 TNone (1 # replicate 51 0) = Fin 0"
  by code_simp

theorem block_size_changes_result_counterexample:
  "map_sum id hd (wrapper 1 pinv_empty pulse_seeded still 2 ''nc'' 65537 0) = Inr (Fin (1 / 51))
   \<and> map_sum id hd (wrapper 100 pinv_empty pulse_seeded still 2 ''nc'' 65537 0) = Inr (Fin 0)
   \<and> wrapper 1 pinv_empty pulse_seeded still 2 ''nc'' 65537 0
       \<noteq> wrapper 100 pinv_empty pulse_seeded still 2 ''nc'' 65537 0"
proof -
  have n: "(2::nat) \<le> 2" and b: "(0::nat) < 65537" by simp_all
  have bs1: "block_size 1 2 = 65536" and bs100: "block_size 100 2 = 6553600"
    by (simp_all add: block_size_def int_trunc_quot_def)
  have c1: "(65536::nat) = (if block_size 1 2 < int 65537 then nat (block_size 1 2) else 65537)"
    by (simp add: bs1)
  have c100: "(65537::nat) =
      (if block_size 100 2 < int 65537 then nat (block_size 100 2) else 65537)"
    by (simp add: bs100)
  obtain r1 where r1: "wrapper 1 pinv_empty pulse_seeded still 2 ''nc'' 65537 0 = Inr r1"
      "length r1 = 65537"
      "r1 ! 0 = spec_statistic pinv_empty 2 TNone
         (map (\<lambda>i. pulse_seeded 0 (i * 65536)) [0..<2 + 50])"
    using wrapper_first_entry [OF n b _ c1, of pinv_empty pulse_seeded still 0]
    by (auto simp: bs1)
  obtain r2 where r2: "wrapper 100 pinv_empty pulse_seeded still 2 ''nc'' 65537 0 = Inr r2"
      "length r2 = 65537"
      "r2 ! 0 = spec_statistic pinv_empty 2 TNone
         (map (\<lambda>i. pulse_seeded 0 (i * 65537)) [0..<2 + 50])"
    using wrapper_first_entry [OF n b _ c100, of pinv_empty pulse_seeded still 0]
    by (auto simp: bs100)
  have v1: "r1 ! 0 = Fin (1 / 51)"
    using r1(3) col_one stat_one by (simp add: pulse_seeded_def del: upt_rec_numeral)
  have v2: "r2 ! 0 = Fin 0"
    using r2(3) col_hundred stat_hundred by (simp add: pulse_seeded_def del: upt_rec_numeral)
  have h1: "hd r1 = Fin (1 / 51)" using v1 r1(2) by (cases r1) simp_all
  have h2: "hd r2 = Fin 0" using v2 r2(2) by (cases r2) simp_all
  have "r1 \<noteq> r2" using h1 h2 by auto
  then show ?thesis using r1(1) r2(1) h1 h2 by simp
qed

section \<open>Detrending with a constant\<close>














end
